theory Spec2Isabelle
  imports Complex_Main
begin

section \<open>The embedding of \<open>analyze_game\<close>\<close>

text \<open>
  \<open>analyze_game\<close> (src/analyze_and_parse_games.py, lines 13 to 70) replays the mainline
  of a game on a board, asks the engine for an evaluation after every ply and records
  the move numbers at which the evaluation jumped. Everything it does to the outside
  world goes through three library objects (the board, the engine session and the
  engine's reply); the model makes each of their calls an explicit part of the input or
  of the output.
\<close>

subsection \<open>Engine scores\<close>

text \<open>
  The engine's reply \<open>info["score"].white()\<close> is a python-chess \<open>Score\<close>: centipawns
  (\<open>Cp\<close>), a forced mate in a number of moves (\<open>Mate\<close>, negative when the side is being
  mated) or mate already given (\<open>MateGiven\<close>). The source turns it into an integer with
  \<open>.score(mate_score=1000)\<close>. That method belongs to python-chess, not to this
  repository; \<open>score_int\<close> follows the library as it documents the method
  (\<open>Mate(5).score(mate_score=100000)\<close> is \<open>99995\<close>): centipawns are returned as they
  are, and a mate in \<open>moves\<close> is \<open>mate_score - moves\<close>, or \<open>- mate_score - moves\<close> for the
  side being mated.
\<close>

datatype score = Cp int | Mate int | MateGiven

fun score_int :: "int \<Rightarrow> score \<Rightarrow> int" where
  "score_int mate_score (Cp cp) = cp"
| "score_int mate_score (Mate moves) =
     (if moves > 0 then mate_score - moves else - mate_score - moves)"
| "score_int mate_score MateGiven = mate_score"

subsection \<open>Exceptions, plies and the engine session\<close>

text \<open>
  \<open>UnboundLocalError\<close> is Python's own exception for reading a local variable that was
  never assigned. \<open>PushError\<close> and \<open>EngineError\<close> stand for whatever \<open>board.push\<close> and
  the engine's methods raise: the source catches neither. \<open>AssertionError\<close> is what
  \<open>board.push\<close> raises when the move's source square holds no piece (the one check it
  makes), \<open>KeyError\<close> what reading \<open>info["score"]\<close> raises when the reply carries no
  score, and \<open>ValueError\<close> what \<open>game.board()\<close> raises on headers that give no valid
  starting position.
\<close>

datatype exn = UnboundLocalError | PushError | EngineError | AssertionError | KeyError
  | ValueError

text \<open>
  One ply of \<open>game.mainline_moves()\<close>, with what the library does when the loop body
  reaches it: \<open>push\<close> is the outcome of \<open>board.push(move)\<close> (\<open>None\<close> when it returns),
  \<open>analyse\<close> the outcome of \<open>await engine.analyse(board, Limit(depth=18))\<close> read through
  \<open>info["score"].white()\<close>: \<open>Inl\<close> when the request raises, and also when it returns a
  reply without a score (\<open>Inl KeyError\<close>, raised at line 51 or 55 after the request has
  been made).
\<close>

record ply =
  push :: "exn option"
  analyse :: "exn + score"

text \<open>The calls made on the engine session, in the order they are made.\<close>

datatype call = Popen_uci | Configure | Analyse | Quit

subsection \<open>Local variables\<close>

text \<open>
  The local variables of \<open>analyze_game\<close> that the loop reads and writes. \<open>score\<close> and
  \<open>move_num\<close> are first assigned inside the loop: \<open>None\<close> is the unbound variable.
  \<open>calls\<close> is the log of the engine session, which is not a Python variable.
\<close>

record locals =
  combined_move_num :: int
  black_mistakes :: "int list"
  black_blunders :: "int list"
  white_mistakes :: "int list"
  white_blunders :: "int list"
  score :: "int option"
  move_num :: "int option"
  calls :: "call list"

definition mistake :: int where
  "mistake = 100"

definition blunder :: int where
  "blunder = 300"

text \<open>
  Line 53, \<open>int(math.ceil(combined_move_num / 2))\<close>. Python's \<open>/\<close> is a floating-point
  division, exact for every ply count below \<open>2^53\<close>; the model divides in the reals.
\<close>

definition move_num_of :: "int \<Rightarrow> int" where
  "move_num_of c = \<lceil>real_of_int c / 2\<rceil>"

text \<open>Lines 38 to 42, after the session has been opened and configured (lines 32, 34).\<close>

definition init_locals :: locals where
  "init_locals =
     \<lparr>combined_move_num = 1, black_mistakes = [], black_blunders = [],
      white_mistakes = [], white_blunders = [], score = None, move_num = None,
      calls = [Popen_uci, Configure]\<rparr>"

subsection \<open>The loop\<close>

text \<open>
  Lines 45 to 66. An exception leaves the function at once, with the session log as it
  is at that moment. \<open>old_score\<close> is the previous \<open>score\<close>, or the new evaluation when
  \<open>score\<close> is still unbound (the \<open>except UnboundLocalError\<close> branch of line 51).
\<close>

definition loop_body :: "locals \<Rightarrow> ply \<Rightarrow> (exn \<times> call list) + locals" where
  "loop_body st p =
     (case push p of
        Some e \<Rightarrow> Inl (e, calls st)
      | None \<Rightarrow>
          (case analyse p of
             Inl e \<Rightarrow> Inl (e, calls st @ [Analyse])
           | Inr info \<Rightarrow>
               (let old_score = (case score st of
                                   Some s \<Rightarrow> s
                                 | None \<Rightarrow> score_int 1000 info);
                    mn = move_num_of (combined_move_num st);
                    sc = score_int 1000 info;
                    st1 = st\<lparr>calls := calls st @ [Analyse], move_num := Some mn,
                             score := Some sc\<rparr>;
                    st2 = (if sc - old_score \<ge> blunder
                             then st1\<lparr>black_blunders := black_blunders st1 @ [mn]\<rparr>
                           else if sc - old_score \<ge> mistake
                             then st1\<lparr>black_mistakes := black_mistakes st1 @ [mn]\<rparr>
                           else if sc - old_score \<le> 0 - blunder
                             then st1\<lparr>white_blunders := white_blunders st1 @ [mn]\<rparr>
                           else if sc - old_score \<le> 0 - mistake
                             then st1\<lparr>white_mistakes := white_mistakes st1 @ [mn]\<rparr>
                           else st1)
                in Inr (st2\<lparr>combined_move_num := combined_move_num st2 + 1\<rparr>))))"

fun for_loop :: "locals \<Rightarrow> ply list \<Rightarrow> (exn \<times> call list) + locals" where
  "for_loop st [] = Inr st"
| "for_loop st (p # ps) =
     (case loop_body st p of
        Inl e \<Rightarrow> Inl e
      | Inr st' \<Rightarrow> for_loop st' ps)"

subsection \<open>The function\<close>

text \<open>
  Lines 68 to 70: the session is quit after the loop, then the tuple is built. Reading
  \<open>move_num\<close> while it is unbound raises \<open>UnboundLocalError\<close>. Both outcomes carry the
  log of the engine session. The session is taken to open and to accept its
  configuration.
\<close>

type_synonym annotation = "int list \<times> int list \<times> int list \<times> int list \<times> int"

definition analyze_game :: "ply list \<Rightarrow> (exn \<times> call list) + (annotation \<times> call list)" where
  "analyze_game game =
     (case for_loop init_locals game of
        Inl e \<Rightarrow> Inl e
      | Inr st \<Rightarrow>
          (let cs = calls st @ [Quit]
           in case move_num st of
                None \<Rightarrow> Inl (UnboundLocalError, cs)
              | Some mn \<Rightarrow>
                  Inr ((white_mistakes st, white_blunders st, black_mistakes st,
                        black_blunders st, mn), cs)))"

text \<open>A ply at which \<open>board.push\<close> returns and the engine answers with a score.\<close>

definition answered :: "score \<Rightarrow> ply" where
  "answered s = \<lparr>push = None, analyse = Inr s\<rparr>"

subsection \<open>The calls outside the loop\<close>

text \<open>
  \<open>analyze_game\<close> above is the function when every call outside the loop returns. Each
  of them can raise as well, and the source catches none: \<open>game.board()\<close> (line 31),
  \<open>popen_uci\<close> (line 32), which opens the session, \<open>engine.configure\<close> (line 34), the
  reading of the three headers for the \<open>print\<close> of line 36, and \<open>engine.quit()\<close>
  (line 68). \<open>outer_calls\<close> holds the outcome of each (\<open>None\<close> when it returns), and
  \<open>analyze_game_with\<close> is lines 31 to 70 with these outcomes. The log holds every call
  made on the engine module or session, also the one that raises.
\<close>

record outer_calls =
  board :: "exn option"
  popen_uci :: "exn option"
  configure :: "exn option"
  headers :: "exn option"
  quit :: "exn option"

definition responsive :: outer_calls where
  "responsive =
     \<lparr>board = None, popen_uci = None, configure = None, headers = None, quit = None\<rparr>"

definition analyze_game_with ::
  "outer_calls \<Rightarrow> ply list \<Rightarrow> (exn \<times> call list) + (annotation \<times> call list)" where
  "analyze_game_with s game =
     (case board s of
        Some e \<Rightarrow> Inl (e, [])
      | None \<Rightarrow>
     (case popen_uci s of
        Some e \<Rightarrow> Inl (e, [Popen_uci])
      | None \<Rightarrow>
     (case configure s of
        Some e \<Rightarrow> Inl (e, [Popen_uci, Configure])
      | None \<Rightarrow>
     (case headers s of
        Some e \<Rightarrow> Inl (e, [Popen_uci, Configure])
      | None \<Rightarrow>
     (case for_loop init_locals game of
        Inl e \<Rightarrow> Inl e
      | Inr st \<Rightarrow>
          (let cs = calls st @ [Quit]
           in case quit s of
                Some e \<Rightarrow> Inl (e, cs)
              | None \<Rightarrow>
                  (case move_num st of
                     None \<Rightarrow> Inl (UnboundLocalError, cs)
                   | Some mn \<Rightarrow>
                       Inr ((white_mistakes st, white_blunders st, black_mistakes st,
                             black_blunders st, mn), cs))))))))"

subsection \<open>The first move from the standard starting position\<close>






subsection \<open>Observations on the local variables and on the outcome\<close>

text \<open>
  The number of events recorded so far, the move numbers recorded so far, the log of the
  engine session of either outcome, and the plies at which both library calls return.
\<close>

definition n_events :: "locals \<Rightarrow> nat" where
  "n_events st = length (white_mistakes st) + length (white_blunders st)
     + length (black_mistakes st) + length (black_blunders st)"

definition event_numbers :: "locals \<Rightarrow> int set" where
  "event_numbers st = set (white_mistakes st) \<union> set (white_blunders st)
     \<union> set (black_mistakes st) \<union> set (black_blunders st)"

definition session_calls :: "(exn \<times> call list) + (annotation \<times> call list) \<Rightarrow> call list" where
  "session_calls r = (case r of Inl (e, cs) \<Rightarrow> cs | Inr (a, cs) \<Rightarrow> cs)"

definition played :: "ply \<Rightarrow> bool" where
  "played p = (push p = None \<and> (case analyse p of Inl e \<Rightarrow> False | Inr info \<Rightarrow> True))"

text \<open>
  \<open>engine.quit()\<close> is reached when every call before the loop returns and every pass of
  the loop body completes.
\<close>

definition reaches_quit :: "outer_calls \<Rightarrow> ply list \<Rightarrow> bool" where
  "reaches_quit s game =
     (board s = None \<and> popen_uci s = None \<and> configure s = None \<and> headers s = None \<and>
      list_all played game)"

section \<open>Properties\<close>

subsection \<open>The move number\<close>

lemma move_num_of_div: "move_num_of c = (c + 1) div 2"
proof -
  have "\<lceil>real_of_int c / real_of_int 2\<rceil> = - (- c div 2)"
    by (rule ceiling_divide_eq_div)
  then show ?thesis
    unfolding move_num_of_def by simp
qed

lemma move_num_of_mono: "a \<le> b \<Longrightarrow> move_num_of a \<le> move_num_of b"
  unfolding move_num_of_div by (rule zdiv_mono1) simp_all

subsection \<open>One pass of the loop body\<close>

lemma loop_body_Inr:
  assumes "loop_body st p = Inr st'"
  shows "combined_move_num st' = combined_move_num st + 1"
    and "move_num st' = Some (move_num_of (combined_move_num st))"
    and "calls st' = calls st @ [Analyse]"
    and "push p = None"
    and "\<exists>info. analyse p = Inr info \<and> score st' = Some (score_int 1000 info)"
  using assms
  by (auto simp: loop_body_def Let_def split: option.splits sum.splits if_splits)

lemma loop_body_n_events:
  assumes "loop_body st p = Inr st'"
  shows "n_events st' \<le> n_events st + 1"
    and "score st = None \<Longrightarrow> n_events st' = n_events st"
  using assms
  by (auto simp: loop_body_def Let_def n_events_def mistake_def blunder_def split: option.splits sum.splits if_splits)

lemma loop_body_event_numbers:
  assumes "loop_body st p = Inr st'"
  shows "event_numbers st' \<subseteq> insert (move_num_of (combined_move_num st)) (event_numbers st)"
  using assms
  by (auto simp: loop_body_def Let_def event_numbers_def split: option.splits sum.splits if_splits)

lemma loop_body_played:
  "played p \<Longrightarrow> \<exists>st'. loop_body st p = Inr st'"
  by (auto simp: loop_body_def Let_def played_def split: option.splits sum.splits)


lemma for_loop_append:
  "for_loop st (xs @ ys) =
     (case for_loop st xs of Inl e \<Rightarrow> Inl e | Inr st' \<Rightarrow> for_loop st' ys)"
  by (induction xs arbitrary: st) (simp_all split: sum.splits)

lemma for_loop_played:
  "list_all played ps \<Longrightarrow> \<exists>st'. for_loop st ps = Inr st'"
proof (induction ps arbitrary: st)
  case Nil
  then show ?case by simp
next
  case (Cons p ps)
  from Cons.prems have "played p" and rest: "list_all played ps" by simp_all
  then obtain st1 where "loop_body st p = Inr st1"
    using loop_body_played by blast
  with Cons.IH [OF rest, of st1] show ?case by simp
qed

lemma for_loop_Inr_played:
  "for_loop st ps = Inr st' \<Longrightarrow> list_all played ps"
proof (induction ps arbitrary: st)
  case Nil
  then show ?case by simp
next
  case (Cons p ps)
  then obtain st1 where b: "loop_body st p = Inr st1" and r: "for_loop st1 ps = Inr st'"
    by (auto split: sum.splits)
  from loop_body_Inr(4,5) [OF b] have "played p"
    by (auto simp: played_def)
  with Cons.IH [OF r] show ?case by simp
qed

lemma for_loop_counters:
  assumes "for_loop st ps = Inr st'"
  shows "combined_move_num st' = combined_move_num st + int (length ps)"
    and "calls st' = calls st @ replicate (length ps) Analyse"
  using assms
proof (induction ps arbitrary: st)
  case Nil
  { case 1 then show ?case by simp }
  { case 2 then show ?case by simp }
next
  case (Cons p ps)
  { case 1
    then obtain st1 where b: "loop_body st p = Inr st1" and r: "for_loop st1 ps = Inr st'"
      by (auto split: sum.splits)
    show ?case using Cons.IH(1) [OF r] loop_body_Inr(1) [OF b] by simp }
  { case 2
    then obtain st1 where b: "loop_body st p = Inr st1" and r: "for_loop st1 ps = Inr st'"
      by (auto split: sum.splits)
    show ?case using Cons.IH(2) [OF r] loop_body_Inr(3) [OF b]
      by (simp add: replicate_app_Cons_same) }
qed

lemma for_loop_last:
  assumes "for_loop st ps = Inr st'" and "ps \<noteq> []"
  shows "move_num st' = Some (move_num_of (combined_move_num st + int (length ps) - 1))"
    and "score st' \<noteq> None"
  using assms
proof (induction ps arbitrary: st)
  case Nil
  { case 1 then show ?case by simp }
  { case 2 then show ?case by simp }
next
  case (Cons p ps)
  { case 1
    then obtain st1 where b: "loop_body st p = Inr st1" and r: "for_loop st1 ps = Inr st'"
      by (auto split: sum.splits)
    show ?case
    proof (cases "ps = []")
      case True
      with r b show ?thesis using loop_body_Inr(2) [OF b] by simp
    next
      case False
      from Cons.IH(1) [OF r False] loop_body_Inr(1) [OF b] show ?thesis
        by (simp add: algebra_simps)
    qed }
  { case 2
    then obtain st1 where b: "loop_body st p = Inr st1" and r: "for_loop st1 ps = Inr st'"
      by (auto split: sum.splits)
    show ?case
    proof (cases "ps = []")
      case True
      with r b show ?thesis using loop_body_Inr(5) [OF b] by auto
    next
      case False
      from Cons.IH(2) [OF r False] show ?thesis .
    qed }
qed

lemma for_loop_n_events:
  "for_loop st ps = Inr st' \<Longrightarrow> n_events st' \<le> n_events st + length ps"
proof (induction ps arbitrary: st)
  case Nil
  then show ?case by simp
next
  case (Cons p ps)
  then obtain st1 where b: "loop_body st p = Inr st1" and r: "for_loop st1 ps = Inr st'"
    by (auto split: sum.splits)
  from Cons.IH [OF r] loop_body_n_events(1) [OF b] show ?case by simp
qed

lemma for_loop_n_events_first:
  assumes "for_loop st ps = Inr st'" and "score st = None" and "ps \<noteq> []"
  shows "n_events st' + 1 \<le> n_events st + length ps"
proof -
  from assms(3) obtain p qs where ps: "ps = p # qs" by (cases ps) auto
  with assms(1) obtain st1 where b: "loop_body st p = Inr st1" and r: "for_loop st1 qs = Inr st'"
    by (auto split: sum.splits)
  from for_loop_n_events [OF r] loop_body_n_events(2) [OF b assms(2)] ps
  show ?thesis by simp
qed

lemma for_loop_event_numbers:
  assumes "for_loop st ps = Inr st'"
  shows "event_numbers st' \<subseteq> event_numbers st \<union>
           {m. move_num_of (combined_move_num st) \<le> m \<and>
               m \<le> move_num_of (combined_move_num st + int (length ps) - 1)}"
  using assms
proof (induction ps arbitrary: st)
  case Nil
  then show ?case by auto
next
  case (Cons p ps)
  then obtain st1 where b: "loop_body st p = Inr st1" and r: "for_loop st1 ps = Inr st'"
    by (auto split: sum.splits)
  let ?c = "combined_move_num st"
  have c1: "combined_move_num st1 = ?c + 1" by (rule loop_body_Inr(1) [OF b])
  have lo: "move_num_of ?c \<le> move_num_of (?c + 1)" by (rule move_num_of_mono) simp
  have hi: "move_num_of ?c \<le> move_num_of (?c + int (length (p # ps)) - 1)"
    by (rule move_num_of_mono) simp
  have e: "?c + 1 + int (length ps) - 1 = ?c + int (length (p # ps)) - 1" by simp
  from Cons.IH [OF r] have
    "event_numbers st' \<subseteq> event_numbers st1 \<union>
       {m. move_num_of (?c + 1) \<le> m \<and> m \<le> move_num_of (?c + int (length (p # ps)) - 1)}"
    unfolding c1 e .
  moreover note loop_body_event_numbers [OF b]
  ultimately show ?case using lo hi by fastforce
qed


lemma loop_body_classify:
  assumes "push p = None" and "analyse p = Inr info" and "score st = Some previous_eval"
    and "delta = score_int 1000 info - previous_eval"
    and "mn = move_num_of (combined_move_num st)"
  shows "\<exists>st'. loop_body st p = Inr st' \<and>
     score st' = Some (score_int 1000 info) \<and>
     black_blunders st' = (if delta \<ge> 300 then black_blunders st @ [mn] else black_blunders st) \<and>
     black_mistakes st' =
       (if delta < 300 \<and> delta \<ge> 100 then black_mistakes st @ [mn] else black_mistakes st) \<and>
     white_blunders st' =
       (if delta < 100 \<and> delta \<le> - 300 then white_blunders st @ [mn] else white_blunders st) \<and>
     white_mistakes st' =
       (if delta > - 300 \<and> delta \<le> - 100 then white_mistakes st @ [mn]
        else white_mistakes st)"
  using assms by (simp add: loop_body_def Let_def mistake_def blunder_def)

lemma loop_body_appends:
  assumes "loop_body st p = Inr st'" and "mn = move_num_of (combined_move_num st)"
  shows "(black_blunders st' = black_blunders st \<or> black_blunders st' = black_blunders st @ [mn]) \<and>
         (black_mistakes st' = black_mistakes st \<or> black_mistakes st' = black_mistakes st @ [mn]) \<and>
         (white_blunders st' = white_blunders st \<or> white_blunders st' = white_blunders st @ [mn]) \<and>
         (white_mistakes st' = white_mistakes st \<or> white_mistakes st' = white_mistakes st @ [mn])"
  using assms
  by (auto simp: loop_body_def Let_def split: option.splits sum.splits if_splits)

lemma loop_body_first:
  assumes "push p = None" and "analyse p = Inr info" and "score st = None"
  shows "loop_body st p =
     Inr (st\<lparr>calls := calls st @ [Analyse],
             move_num := Some (move_num_of (combined_move_num st)),
             score := Some (score_int 1000 info),
             combined_move_num := combined_move_num st + 1\<rparr>)"
  using assms by (simp add: loop_body_def Let_def mistake_def blunder_def)

lemma for_loop_push_raises:
  assumes "list_all played pre" and "push p = Some e"
  shows "for_loop st (pre @ p # post) = Inl (e, calls st @ replicate (length pre) Analyse)"
proof -
  from for_loop_played [OF assms(1)] obtain st1 where r: "for_loop st pre = Inr st1"
    by blast
  have c: "calls st1 = calls st @ replicate (length pre) Analyse"
    by (rule for_loop_counters(2) [OF r])
  have "loop_body st1 p = Inl (e, calls st1)"
    using assms(2) by (simp add: loop_body_def)
  then show ?thesis
    using r c by (simp add: for_loop_append)
qed

lemma for_loop_analyse_raises:
  assumes "list_all played pre" and "push p = None" and "analyse p = Inl e"
  shows "for_loop st (pre @ p # post) =
           Inl (e, calls st @ replicate (Suc (length pre)) Analyse)"
proof -
  from for_loop_played [OF assms(1)] obtain st1 where r: "for_loop st pre = Inr st1"
    by blast
  have c: "calls st1 = calls st @ replicate (length pre) Analyse"
    by (rule for_loop_counters(2) [OF r])
  have "loop_body st1 p = Inl (e, calls st1 @ [Analyse])"
    using assms(2,3) by (simp add: loop_body_def)
  then show ?thesis
    using r c by (simp add: for_loop_append replicate_append_same)
qed

lemma not_played_cases:
  assumes "\<not> played p"
  obtains e where "push p = Some e" | e where "push p = None" and "analyse p = Inl e"
  using assms by (auto simp: played_def split: sum.splits)

lemma first_failure:
  assumes "\<not> list_all played game"
  shows "\<exists>pre p post. game = pre @ p # post \<and> list_all played pre \<and> \<not> played p"
  using assms
proof (induction game)
  case Nil
  then show ?case by simp
next
  case (Cons q qs)
  show ?case
  proof (cases "played q")
    case False
    then have "q # qs = [] @ q # qs \<and> list_all played [] \<and> \<not> played q" by simp
    then show ?thesis by blast
  next
    case True
    with Cons.prems have "\<not> list_all played qs" by simp
    from Cons.IH [OF this] obtain pre p post
      where "qs = pre @ p # post" "list_all played pre" "\<not> played p" by blast
    with True have "q # qs = (q # pre) @ p # post \<and> list_all played (q # pre) \<and> \<not> played p"
      by simp
    then show ?thesis by blast
  qed
qed

subsection \<open>The whole function\<close>

lemma analyze_game_Inr:
  assumes "analyze_game game = Inr ((wm, wb, bm, bb, last_move), cs)"
  shows "\<exists>st. for_loop init_locals game = Inr st \<and> game \<noteq> [] \<and>
           wm = white_mistakes st \<and> wb = white_blunders st \<and>
           bm = black_mistakes st \<and> bb = black_blunders st \<and>
           move_num st = Some last_move \<and> cs = calls st @ [Quit]"
proof -
  from assms obtain st where r: "for_loop init_locals game = Inr st"
    and f: "wm = white_mistakes st" "wb = white_blunders st" "bm = black_mistakes st"
      "bb = black_blunders st" "move_num st = Some last_move" "cs = calls st @ [Quit]"
    by (auto simp: analyze_game_def Let_def split: sum.splits option.splits)
  have "game \<noteq> []"
  proof
    assume "game = []"
    with r have "st = init_locals" by simp
    with f(5) show False by (simp add: init_locals_def)
  qed
  with r f show ?thesis by blast
qed

lemma analyze_game_returns:
  assumes "game \<noteq> []" and "list_all played game"
  shows "\<exists>st last_move. for_loop init_locals game = Inr st \<and> move_num st = Some last_move \<and>
           analyze_game game =
             Inr ((white_mistakes st, white_blunders st, black_mistakes st,
                   black_blunders st, last_move), calls st @ [Quit])"
proof -
  from for_loop_played [OF assms(2)] obtain st where r: "for_loop init_locals game = Inr st"
    by blast
  from for_loop_last(1) [OF r assms(1)] obtain last_move where m: "move_num st = Some last_move"
    by blast
  from r m show ?thesis by (simp add: analyze_game_def)
qed

subsection \<open>The calls outside the loop, and the first move\<close>

lemma analyze_game_with_responsive: "analyze_game_with responsive game = analyze_game game"
  by (simp add: analyze_game_with_def responsive_def analyze_game_def Let_def
      split: sum.splits option.splits)

lemma count_list_replicate_Analyse:
  "count_list (replicate n Analyse) c = (if c = Analyse then n else 0)"
  by (induction n) auto

lemma analyze_game_with_reaches_quit:
  assumes "reaches_quit s game"
  shows "\<exists>st. for_loop init_locals game = Inr st \<and>
           calls st = [Popen_uci, Configure] @ replicate (length game) Analyse \<and>
           analyze_game_with s game =
             (case quit s of
                Some e \<Rightarrow> Inl (e, calls st @ [Quit])
              | None \<Rightarrow>
                  (case move_num st of
                     None \<Rightarrow> Inl (UnboundLocalError, calls st @ [Quit])
                   | Some mn \<Rightarrow>
                       Inr ((white_mistakes st, white_blunders st, black_mistakes st,
                             black_blunders st, mn), calls st @ [Quit])))"
proof -
  from assms have o: "board s = None" "popen_uci s = None" "configure s = None"
    "headers s = None" and p: "list_all played game"
    by (simp_all add: reaches_quit_def)
  from for_loop_played [OF p] obtain st where r: "for_loop init_locals game = Inr st"
    by blast
  from for_loop_counters(2) [OF r]
  have c: "calls st = [Popen_uci, Configure] @ replicate (length game) Analyse"
    by (simp add: init_locals_def)
  from o r have "analyze_game_with s game =
             (case quit s of
                Some e \<Rightarrow> Inl (e, calls st @ [Quit])
              | None \<Rightarrow>
                  (case move_num st of
                     None \<Rightarrow> Inl (UnboundLocalError, calls st @ [Quit])
                   | Some mn \<Rightarrow>
                       Inr ((white_mistakes st, white_blunders st, black_mistakes st,
                             black_blunders st, mn), calls st @ [Quit])))"
    by (simp add: analyze_game_with_def Let_def split: option.splits)
  with r c show ?thesis by blast
qed

lemma analyze_game_with_loop_raises:
  assumes "board s = None" and "popen_uci s = None" and "configure s = None"
    and "headers s = None" and "for_loop init_locals game = Inl x"
  shows "analyze_game_with s game = Inl x"
  using assms by (simp add: analyze_game_with_def)


section \<open>The claims\<close>

subsection \<open>The delta classifier\<close>

text \<open>
  Claim C1. At a ply that has a previous evaluation, with \<open>delta\<close> the new evaluation
  minus the previous one, the loop body appends the move number to exactly one list or to
  none: to the Black blunders iff \<open>delta \<ge> 300\<close>, else to the Black mistakes iff
  \<open>delta \<ge> 100\<close>, else to the White blunders iff \<open>delta \<le> -300\<close>, else to the White
  mistakes iff \<open>delta \<le> -100\<close>, else to no list. The four conditions below exclude one
  another.
\<close>

theorem delta_classifier_priority:
  assumes "push p = None" and "analyse p = Inr info" and "score st = Some previous_eval"
    and "current_eval = score_int 1000 info"
    and "delta = current_eval - previous_eval"
    and "mn = move_num_of (combined_move_num st)"
  shows "\<exists>st'. loop_body st p = Inr st' \<and>
     score st' = Some current_eval \<and>
     black_blunders st' = (if delta \<ge> 300 then black_blunders st @ [mn] else black_blunders st) \<and>
     black_mistakes st' =
       (if delta < 300 \<and> delta \<ge> 100 then black_mistakes st @ [mn] else black_mistakes st) \<and>
     white_blunders st' =
       (if delta < 100 \<and> delta \<le> - 300 then white_blunders st @ [mn] else white_blunders st) \<and>
     white_mistakes st' =
       (if delta > - 300 \<and> delta \<le> - 100 then white_mistakes st @ [mn]
        else white_mistakes st)"
  using loop_body_classify [OF assms(1,2,3), of delta mn] assms(4,5,6) by simp

text \<open>
  The boundaries: from a previous evaluation of 0, a delta of 300 is a Black blunder and
  not a mistake, 100 is a Black mistake, 99 is no event, -300 is a White blunder and
  -100 a White mistake.
\<close>

theorem delta_classifier_priority_witness:
  "score (init_locals\<lparr>score := Some 0\<rparr>) = Some 0 \<and>
   (\<exists>st'. loop_body (init_locals\<lparr>score := Some 0\<rparr>) (answered (Cp 300)) = Inr st' \<and>
      black_blunders st' = [1] \<and> black_mistakes st' = [] \<and>
      white_blunders st' = [] \<and> white_mistakes st' = []) \<and>
   (\<exists>st'. loop_body (init_locals\<lparr>score := Some 0\<rparr>) (answered (Cp 100)) = Inr st' \<and>
      black_blunders st' = [] \<and> black_mistakes st' = [1] \<and>
      white_blunders st' = [] \<and> white_mistakes st' = []) \<and>
   (\<exists>st'. loop_body (init_locals\<lparr>score := Some 0\<rparr>) (answered (Cp 99)) = Inr st' \<and>
      black_blunders st' = [] \<and> black_mistakes st' = [] \<and>
      white_blunders st' = [] \<and> white_mistakes st' = []) \<and>
   (\<exists>st'. loop_body (init_locals\<lparr>score := Some 0\<rparr>) (answered (Cp (- 300))) = Inr st' \<and>
      black_blunders st' = [] \<and> black_mistakes st' = [] \<and>
      white_blunders st' = [1] \<and> white_mistakes st' = []) \<and>
   (\<exists>st'. loop_body (init_locals\<lparr>score := Some 0\<rparr>) (answered (Cp (- 100))) = Inr st' \<and>
      black_blunders st' = [] \<and> black_mistakes st' = [] \<and>
      white_blunders st' = [] \<and> white_mistakes st' = [1])"
proof -
  let ?st = "init_locals\<lparr>score := Some 0\<rparr>"
  have a: "\<exists>st'. loop_body ?st (answered (Cp (300))) = Inr st' \<and>
      black_blunders st' = [1] \<and> black_mistakes st' = [] \<and>
      white_blunders st' = [] \<and> white_mistakes st' = []"
    using delta_classifier_priority [where p = "answered (Cp (300))" and info = "Cp (300)"
        and st = ?st and previous_eval = 0 and current_eval = "300" and delta = "300"
        and mn = 1]
    by (auto simp add: answered_def init_locals_def move_num_of_div)
  have b: "\<exists>st'. loop_body ?st (answered (Cp (100))) = Inr st' \<and>
      black_blunders st' = [] \<and> black_mistakes st' = [1] \<and>
      white_blunders st' = [] \<and> white_mistakes st' = []"
    using delta_classifier_priority [where p = "answered (Cp (100))" and info = "Cp (100)"
        and st = ?st and previous_eval = 0 and current_eval = "100" and delta = "100"
        and mn = 1]
    by (auto simp add: answered_def init_locals_def move_num_of_div)
  have c: "\<exists>st'. loop_body ?st (answered (Cp (99))) = Inr st' \<and>
      black_blunders st' = [] \<and> black_mistakes st' = [] \<and>
      white_blunders st' = [] \<and> white_mistakes st' = []"
    using delta_classifier_priority [where p = "answered (Cp (99))" and info = "Cp (99)"
        and st = ?st and previous_eval = 0 and current_eval = "99" and delta = "99"
        and mn = 1]
    by (auto simp add: answered_def init_locals_def move_num_of_div)
  have d: "\<exists>st'. loop_body ?st (answered (Cp (- 300))) = Inr st' \<and>
      black_blunders st' = [] \<and> black_mistakes st' = [] \<and>
      white_blunders st' = [1] \<and> white_mistakes st' = []"
    using delta_classifier_priority [where p = "answered (Cp (- 300))" and info = "Cp (- 300)"
        and st = ?st and previous_eval = 0 and current_eval = "- 300" and delta = "- 300"
        and mn = 1]
    by (auto simp add: answered_def init_locals_def move_num_of_div)
  have e: "\<exists>st'. loop_body ?st (answered (Cp (- 100))) = Inr st' \<and>
      black_blunders st' = [] \<and> black_mistakes st' = [] \<and>
      white_blunders st' = [] \<and> white_mistakes st' = [1]"
    using delta_classifier_priority [where p = "answered (Cp (- 100))" and info = "Cp (- 100)"
        and st = ?st and previous_eval = 0 and current_eval = "- 100" and delta = "- 100"
        and mn = 1]
    by (auto simp add: answered_def init_locals_def move_num_of_div)
  show ?thesis
    using a b c d e by simp
qed

subsection \<open>Move numbers\<close>

text \<open>
  Claim C2. When the loop reaches the ply of 1-based index \<open>p\<close>, \<open>combined_move_num\<close> is
  \<open>p\<close>, the move number it derives is the ceiling of \<open>p / 2\<close>, and each of the four lists
  is left as it was or gets that move number appended. For the ply indices 1 to 10 the
  move numbers are 1, 1, 2, 2, 3, 3, 4, 4, 5, 5.
\<close>

theorem move_number_of_ply:
  assumes "1 \<le> p" and "p \<le> length game"
    and "for_loop init_locals (take (p - 1) game) = Inr st"
    and "loop_body st (game ! (p - 1)) = Inr st'"
    and "mn = \<lceil>real p / 2\<rceil>"
  shows "combined_move_num st = int p \<and> move_num st' = Some mn \<and>
    (black_blunders st' = black_blunders st \<or> black_blunders st' = black_blunders st @ [mn]) \<and>
    (black_mistakes st' = black_mistakes st \<or> black_mistakes st' = black_mistakes st @ [mn]) \<and>
    (white_blunders st' = white_blunders st \<or> white_blunders st' = white_blunders st @ [mn]) \<and>
    (white_mistakes st' = white_mistakes st \<or> white_mistakes st' = white_mistakes st @ [mn]) \<and>
    map move_num_of [1, 2, 3, 4, 5, 6, 7, 8, 9, 10] = [1, 1, 2, 2, 3, 3, 4, 4, 5, 5]"
proof -
  have "combined_move_num st = combined_move_num init_locals + int (length (take (p - 1) game))"
    by (rule for_loop_counters(1) [OF assms(3)])
  with assms(1,2) have c: "combined_move_num st = int p"
    by (simp add: init_locals_def min_def)
  have m: "mn = move_num_of (combined_move_num st)"
    unfolding c assms(5) move_num_of_def by simp
  have t: "map move_num_of [1, 2, 3, 4, 5, 6, 7, 8, 9, 10] = [1, 1, 2, 2, 3, 3, 4, 4, 5, 5]"
    by (simp add: move_num_of_div)
  from loop_body_Inr(2) [OF assms(4)] have "move_num st' = Some mn"
    unfolding m .
  with c t loop_body_appends [OF assms(4) m] show ?thesis by simp
qed

text \<open>
  The third ply of the game with evaluations 20, 20, -310: the locals before and after it.
\<close>

theorem move_number_of_ply_witness:
  "(1::nat) \<le> 3 \<and> 3 \<le> length (map answered [Cp 20, Cp 20, Cp (- 310)]) \<and>
   for_loop init_locals (take (3 - 1) (map answered [Cp 20, Cp 20, Cp (- 310)])) =
     Inr \<lparr>combined_move_num = 3, black_mistakes = [], black_blunders = [],
          white_mistakes = [], white_blunders = [], score = Some 20, move_num = Some 1,
          calls = [Popen_uci, Configure, Analyse, Analyse]\<rparr> \<and>
   loop_body \<lparr>combined_move_num = 3, black_mistakes = [], black_blunders = [],
          white_mistakes = [], white_blunders = [], score = Some 20, move_num = Some 1,
          calls = [Popen_uci, Configure, Analyse, Analyse]\<rparr>
        (map answered [Cp 20, Cp 20, Cp (- 310)] ! (3 - 1)) =
     Inr \<lparr>combined_move_num = 4, black_mistakes = [], black_blunders = [],
          white_mistakes = [], white_blunders = [2], score = Some (- 310),
          move_num = Some 2, calls = [Popen_uci, Configure, Analyse, Analyse, Analyse]\<rparr> \<and>
   \<lceil>real (3::nat) / 2\<rceil> = 2 \<and>
   move_num \<lparr>combined_move_num = 4, black_mistakes = [], black_blunders = [],
          white_mistakes = [], white_blunders = [2], score = Some (- 310),
          move_num = Some 2, calls = [Popen_uci, Configure, Analyse, Analyse, Analyse]\<rparr>
     = Some \<lceil>real (3::nat) / 2\<rceil>"
proof -
  let ?game = "map answered [Cp 20, Cp 20, Cp (- 310)]"
  let ?st = "\<lparr>combined_move_num = 3, black_mistakes = [], black_blunders = [],
          white_mistakes = [], white_blunders = [], score = Some 20, move_num = Some 1,
          calls = [Popen_uci, Configure, Analyse, Analyse]\<rparr>"
  let ?st' = "\<lparr>combined_move_num = 4, black_mistakes = [], black_blunders = [],
          white_mistakes = [], white_blunders = [2], score = Some (- 310),
          move_num = Some 2, calls = [Popen_uci, Configure, Analyse, Analyse, Analyse]\<rparr>"
  have h1: "(1::nat) \<le> 3" by simp
  have h2: "3 \<le> length ?game" by simp
  have h3: "for_loop init_locals (take (3 - 1) ?game) = Inr ?st"
    by (simp add: init_locals_def answered_def loop_body_def Let_def move_num_of_div
        mistake_def blunder_def)
  have h4: "loop_body ?st (?game ! (3 - 1)) = Inr ?st'"
    by (simp add: answered_def loop_body_def Let_def move_num_of_div
        mistake_def blunder_def)
  have h5: "\<lceil>real (3::nat) / 2\<rceil> = 2" by simp
  from move_number_of_ply [OF h1 h2 h3 h4 refl] h1 h2 h3 h4 h5
  show ?thesis by simp
qed

subsection \<open>The first ply\<close>

text \<open>
  Claim C3. The first ply of a game produces no event, whatever the engine answers:
  \<open>score\<close> is still unbound, so \<open>old_score\<close> is the new evaluation itself and the delta
  is 0. The pass only stores the evaluation as \<open>score\<close>; the rest of the game runs from
  locals whose four lists are empty, and a game of a single move returns four empty
  lists and the move number 1.
\<close>

theorem first_ply_no_event:
  assumes "push p = None" and "analyse p = Inr info"
  shows "\<exists>st1. loop_body init_locals p = Inr st1 \<and>
     white_mistakes st1 = [] \<and> white_blunders st1 = [] \<and>
     black_mistakes st1 = [] \<and> black_blunders st1 = [] \<and>
     score st1 = Some (score_int 1000 info) \<and>
     (\<forall>ps. for_loop init_locals (p # ps) = for_loop st1 ps) \<and>
     analyze_game [p] = Inr (([], [], [], [], 1), [Popen_uci, Configure, Analyse, Quit])"
proof -
  have s: "score init_locals = None" by (simp add: init_locals_def)
  note b = loop_body_first [OF assms s]
  show ?thesis
    unfolding analyze_game_def for_loop.simps b
    by (simp add: init_locals_def move_num_of_div)
qed

text \<open>
  A single-move game whose only evaluation is 100000 centipawns.
\<close>

theorem first_ply_no_event_witness:
  "push (answered (Cp 100000)) = None \<and> analyse (answered (Cp 100000)) = Inr (Cp 100000) \<and>
   analyze_game [answered (Cp 100000)] =
     Inr (([], [], [], [], 1), [Popen_uci, Configure, Analyse, Quit])"
proof -
  have h1: "push (answered (Cp 100000)) = None" by (simp add: answered_def)
  have h2: "analyse (answered (Cp 100000)) = Inr (Cp 100000)" by (simp add: answered_def)
  from first_ply_no_event [OF h1 h2] h1 h2 show ?thesis by blast
qed

subsection \<open>A five-ply scenario\<close>

text \<open>
  Claim C4. A game of five plies whose evaluations are 20, 20, -310, -310, -50 yields
  exactly two events: a White blunder at move 2 and a Black mistake at move 3. The
  results of the games cut after two, three and four plies show where each comes from:
  nothing after ply 2, the White blunder at ply 3 (delta -330), nothing at ply 4, the
  Black mistake at ply 5 (delta 260). The tuple is (white mistakes, white blunders,
  black mistakes, black blunders, move number).
\<close>

theorem scenario_five_plies:
  "analyze_game (map answered [Cp 20, Cp 20, Cp (- 310), Cp (- 310), Cp (- 50)]) =
     Inr (([], [2], [3], [], 3),
          [Popen_uci, Configure, Analyse, Analyse, Analyse, Analyse, Analyse, Quit]) \<and>
   analyze_game (map answered [Cp 20, Cp 20]) =
     Inr (([], [], [], [], 1), [Popen_uci, Configure, Analyse, Analyse, Quit]) \<and>
   analyze_game (map answered [Cp 20, Cp 20, Cp (- 310)]) =
     Inr (([], [2], [], [], 2), [Popen_uci, Configure, Analyse, Analyse, Analyse, Quit]) \<and>
   analyze_game (map answered [Cp 20, Cp 20, Cp (- 310), Cp (- 310)]) =
     Inr (([], [2], [], [], 2),
          [Popen_uci, Configure, Analyse, Analyse, Analyse, Analyse, Quit])"
  by (simp add: analyze_game_def init_locals_def answered_def loop_body_def Let_def
      move_num_of_div mistake_def blunder_def)

subsection \<open>The number of events\<close>

text \<open>
  Claim C5. An analysis completes whenever the game has a ply and every \<open>board.push\<close> and
  every \<open>engine.analyse\<close> returns; and whenever an analysis completes, the game has at
  least one ply and the four lists together hold at most as many events as the game has
  plies, less one.
\<close>

theorem events_at_most_plies_minus_one:
  "(game \<noteq> [] \<and> list_all played game \<longrightarrow> (\<exists>r. analyze_game game = Inr r)) \<and>
   (\<forall>wm wb bm bb last_move cs.
      analyze_game game = Inr ((wm, wb, bm, bb, last_move), cs) \<longrightarrow>
        1 \<le> length game \<and>
        length wm + length wb + length bm + length bb \<le> length game - 1)"
proof (intro conjI impI allI)
  assume "game \<noteq> [] \<and> list_all played game"
  with analyze_game_returns [of game] show "\<exists>r. analyze_game game = Inr r" by blast
next
  fix wm wb bm bb last_move cs
  assume a: "analyze_game game = Inr ((wm, wb, bm, bb, last_move), cs)"
  from analyze_game_Inr [OF a] obtain st where r: "for_loop init_locals game = Inr st"
    and n: "game \<noteq> []" and f: "wm = white_mistakes st" "wb = white_blunders st"
      "bm = black_mistakes st" "bb = black_blunders st"
    by blast
  from n show "1 \<le> length game" by (cases game) simp_all
  have s: "score init_locals = None" by (simp add: init_locals_def)
  have z: "n_events init_locals = 0" by (simp add: init_locals_def n_events_def)
  from for_loop_n_events_first [OF r s n] z have "n_events st + 1 \<le> length game" by simp
  then show "length wm + length wb + length bm + length bb \<le> length game - 1"
    unfolding f n_events_def by simp
qed

text \<open>
  The game with evaluations 20, 20, -310: three plies, one event.
\<close>

theorem events_at_most_plies_minus_one_witness:
  "map answered [Cp 20, Cp 20, Cp (- 310)] \<noteq> [] \<and>
   list_all played (map answered [Cp 20, Cp 20, Cp (- 310)]) \<and>
   analyze_game (map answered [Cp 20, Cp 20, Cp (- 310)]) =
     Inr (([], [2], [], [], 2), [Popen_uci, Configure, Analyse, Analyse, Analyse, Quit]) \<and>
   length ([]::int list) + length [2::int] + length ([]::int list) + length ([]::int list)
     \<le> length (map answered [Cp 20, Cp 20, Cp (- 310)]) - 1"
proof -
  let ?game = "map answered [Cp 20, Cp 20, Cp (- 310)]"
  have h1: "?game \<noteq> [] \<and> list_all played ?game"
    by (simp add: played_def answered_def)
  have h2: "analyze_game ?game =
     Inr (([], [2], [], [], 2), [Popen_uci, Configure, Analyse, Analyse, Analyse, Quit])"
    by (simp add: analyze_game_def init_locals_def answered_def loop_body_def Let_def
        move_num_of_div mistake_def blunder_def)
  from events_at_most_plies_minus_one [of ?game] h1 h2 show ?thesis by simp
qed

subsection \<open>Evaluations near mate\<close>

text \<open>
  Claim C6 says that every evaluation is clamped to \<open>\<plusminus>1000\<close> and that a forced mate
  maps to 1000 whatever its distance. It fails: the source differences what
  \<open>.score(mate_score=1000)\<close> returns and clamps nothing. A centipawn score of 1300 after
  one of 1000 is a Black blunder (clamped, the delta would be 0), and after an
  evaluation of 899 a mate in 1 (999) is a Black mistake where a mate in 2 (998) is no
  event, so the mate distance decides the classification.
\<close>

theorem evaluations_not_clamped:
  "analyze_game [answered (Cp 1000), answered (Cp 1300)] =
     Inr (([], [], [], [1], 1), [Popen_uci, Configure, Analyse, Analyse, Quit]) \<and>
   analyze_game [answered (Cp 899), answered (Mate 1)] =
     Inr (([], [], [1], [], 1), [Popen_uci, Configure, Analyse, Analyse, Quit]) \<and>
   analyze_game [answered (Cp 899), answered (Mate 2)] =
     Inr (([], [], [], [], 1), [Popen_uci, Configure, Analyse, Analyse, Quit]) \<and>
   score_int 1000 (Cp 1300) = 1300 \<and>
   score_int 1000 (Mate 1) = 999 \<and> score_int 1000 (Mate 2) = 998 \<and>
   score_int 1000 (Mate 1) - score_int 1000 (Mate 2) \<noteq> 1000 - 1000"
  by (simp add: analyze_game_def init_locals_def answered_def loop_body_def Let_def
      move_num_of_div mistake_def blunder_def)

text \<open>
  Claim C6, amended. The evaluation that the loop body differences and classifies is the
  engine's score for White converted with \<open>mate_score = 1000\<close>, with no clamp: a
  centipawn score as it is, whatever its magnitude, 1000 for mate given, \<open>1000 - n\<close> for a
  mate in \<open>n\<close> moves and \<open>- 1000 - n\<close> when White is the side being mated (\<open>n \<le> 0\<close>). The
  delta that decides the event is that value minus the previous evaluation, and the
  value is stored as the next previous evaluation. So the mate distance enters the
  delta: after a mate in \<open>n\<close>, a mate in \<open>m\<close> for the same side gives the delta \<open>n - m\<close>.
\<close>

theorem evaluations_differenced_unclamped:
  assumes "push p = None" and "analyse p = Inr info" and "score st = Some previous_eval"
    and "current_eval =
           (case info of
              Cp cp \<Rightarrow> cp
            | Mate n \<Rightarrow> (if 0 < n then 1000 - n else - 1000 - n)
            | MateGiven \<Rightarrow> 1000)"
    and "delta = current_eval - previous_eval"
    and "mn = move_num_of (combined_move_num st)"
  shows "\<exists>st'. loop_body st p = Inr st' \<and>
     score st' = Some current_eval \<and>
     black_blunders st' = (if delta \<ge> 300 then black_blunders st @ [mn] else black_blunders st) \<and>
     black_mistakes st' =
       (if delta < 300 \<and> delta \<ge> 100 then black_mistakes st @ [mn] else black_mistakes st) \<and>
     white_blunders st' =
       (if delta < 100 \<and> delta \<le> - 300 then white_blunders st @ [mn] else white_blunders st) \<and>
     white_mistakes st' =
       (if delta > - 300 \<and> delta \<le> - 100 then white_mistakes st @ [mn]
        else white_mistakes st) \<and>
     (\<forall>n m. 0 < n \<and> 0 < m \<and> previous_eval = 1000 - n \<and> info = Mate m \<longrightarrow> delta = n - m)"
proof -
  have c: "current_eval = score_int 1000 info"
    unfolding assms(4) by (cases info) simp_all
  have d: "delta = score_int 1000 info - previous_eval"
    unfolding assms(5) c ..
  have m: "\<forall>n m. 0 < n \<and> 0 < m \<and> previous_eval = 1000 - n \<and> info = Mate m \<longrightarrow> delta = n - m"
    unfolding d by auto
  from loop_body_classify [OF assms(1,2,3) d assms(6)] obtain st'
    where b: "loop_body st p = Inr st'"
      and s: "score st' = Some (score_int 1000 info)"
      and l: "black_blunders st' =
           (if delta \<ge> 300 then black_blunders st @ [mn] else black_blunders st)"
        "black_mistakes st' =
           (if delta < 300 \<and> delta \<ge> 100 then black_mistakes st @ [mn] else black_mistakes st)"
        "white_blunders st' =
           (if delta < 100 \<and> delta \<le> - 300 then white_blunders st @ [mn]
            else white_blunders st)"
        "white_mistakes st' =
           (if delta > - 300 \<and> delta \<le> - 100 then white_mistakes st @ [mn]
            else white_mistakes st)"
    by blast
  from s have s': "score st' = Some current_eval" unfolding c .
  from b s' l m show ?thesis by blast
qed

text \<open>
  The three cases that a clamp to \<open>\<plusminus>1000\<close>, or one value for every mate, would decide
  otherwise: 1300 after 1000 is a Black blunder, a mate in 1 after 899 a Black mistake,
  a mate in 2 after 899 no event.
\<close>

theorem evaluations_differenced_unclamped_witness:
  "(\<exists>st'. loop_body (init_locals\<lparr>score := Some 1000\<rparr>) (answered (Cp 1300)) = Inr st' \<and>
      score st' = Some 1300 \<and>
      black_blunders st' = [1] \<and> black_mistakes st' = [] \<and>
      white_blunders st' = [] \<and> white_mistakes st' = []) \<and>
   (\<exists>st'. loop_body (init_locals\<lparr>score := Some 899\<rparr>) (answered (Mate 1)) = Inr st' \<and>
      score st' = Some 999 \<and>
      black_blunders st' = [] \<and> black_mistakes st' = [1] \<and>
      white_blunders st' = [] \<and> white_mistakes st' = []) \<and>
   (\<exists>st'. loop_body (init_locals\<lparr>score := Some 899\<rparr>) (answered (Mate 2)) = Inr st' \<and>
      score st' = Some 998 \<and>
      black_blunders st' = [] \<and> black_mistakes st' = [] \<and>
      white_blunders st' = [] \<and> white_mistakes st' = [])"
proof -
  have a: "\<exists>st'. loop_body (init_locals\<lparr>score := Some 1000\<rparr>) (answered (Cp 1300)) = Inr st' \<and>
      score st' = Some 1300 \<and>
      black_blunders st' = [1] \<and> black_mistakes st' = [] \<and>
      white_blunders st' = [] \<and> white_mistakes st' = []"
    using evaluations_differenced_unclamped [where p = "answered (Cp 1300)" and info = "Cp 1300"
        and st = "init_locals\<lparr>score := Some 1000\<rparr>" and previous_eval = 1000
        and current_eval = 1300 and delta = 300 and mn = 1]
    by (auto simp add: answered_def init_locals_def move_num_of_div)
  have b: "\<exists>st'. loop_body (init_locals\<lparr>score := Some 899\<rparr>) (answered (Mate 1)) = Inr st' \<and>
      score st' = Some 999 \<and>
      black_blunders st' = [] \<and> black_mistakes st' = [1] \<and>
      white_blunders st' = [] \<and> white_mistakes st' = []"
    using evaluations_differenced_unclamped [where p = "answered (Mate 1)" and info = "Mate 1"
        and st = "init_locals\<lparr>score := Some 899\<rparr>" and previous_eval = 899
        and current_eval = 999 and delta = 100 and mn = 1]
    by (auto simp add: answered_def init_locals_def move_num_of_div)
  have c: "\<exists>st'. loop_body (init_locals\<lparr>score := Some 899\<rparr>) (answered (Mate 2)) = Inr st' \<and>
      score st' = Some 998 \<and>
      black_blunders st' = [] \<and> black_mistakes st' = [] \<and>
      white_blunders st' = [] \<and> white_mistakes st' = []"
    using evaluations_differenced_unclamped [where p = "answered (Mate 2)" and info = "Mate 2"
        and st = "init_locals\<lparr>score := Some 899\<rparr>" and previous_eval = 899
        and current_eval = 998 and delta = 99 and mn = 1]
    by (auto simp add: answered_def init_locals_def move_num_of_div)
  from a b c show ?thesis by (intro conjI)
qed

subsection \<open>The game without a ply\<close>

text \<open>
  Claim C7. The claim expects a game with zero plies to return a move number of 0 and
  four empty lists. The loop never runs, so \<open>move_num\<close> is never assigned, and the
  \<open>return\<close> of line 70 raises \<open>UnboundLocalError\<close> after the engine has been quit:
  nothing is returned.
\<close>

theorem empty_game_unbound_move_num:
  "analyze_game [] = Inl (UnboundLocalError, [Popen_uci, Configure, Quit])"
  by (simp add: analyze_game_def init_locals_def)

subsection \<open>The engine session\<close>

text \<open>
  Claim C8 says that the session is released on every exit path. It fails:
  \<open>engine.quit()\<close> is the statement after the loop, outside any \<open>try\<close>, so an exception
  raised before it leaves the function without it. In a game of six plies whose fourth
  evaluation fails, the exception leaves \<open>analyze_game\<close> after four requests and the
  session is never quit; and when \<open>engine.configure\<close> raises, the session that
  \<open>popen_uci\<close> has opened is not quit either.
\<close>

theorem session_not_quit_on_failure:
  "analyze_game (map answered [Cp 0, Cp 0, Cp 0] @
       \<lparr>push = None, analyse = Inl EngineError\<rparr> # map answered [Cp 0, Cp 0]) =
     Inl (EngineError, [Popen_uci, Configure, Analyse, Analyse, Analyse, Analyse]) \<and>
   count_list (session_calls (analyze_game (map answered [Cp 0, Cp 0, Cp 0] @
       \<lparr>push = None, analyse = Inl EngineError\<rparr> # map answered [Cp 0, Cp 0]))) Quit = 0 \<and>
   analyze_game_with responsive (map answered [Cp 0, Cp 0, Cp 0] @
       \<lparr>push = None, analyse = Inl EngineError\<rparr> # map answered [Cp 0, Cp 0]) =
     Inl (EngineError, [Popen_uci, Configure, Analyse, Analyse, Analyse, Analyse]) \<and>
   analyze_game_with (responsive\<lparr>configure := Some EngineError\<rparr>) [answered (Cp 0)] =
     Inl (EngineError, [Popen_uci, Configure])"
  by (simp add: analyze_game_def analyze_game_with_def responsive_def init_locals_def
      answered_def loop_body_def Let_def move_num_of_div mistake_def blunder_def
      session_calls_def)

text \<open>
  Claim C8, amended. \<open>engine.quit()\<close> is called exactly once, as the last call on the
  session and after one request per ply, when \<open>game.board()\<close>, \<open>popen_uci\<close>,
  \<open>engine.configure\<close> and the reading of the headers return and every pass of the loop
  body completes; otherwise it is never called. In that other case the first exception
  raised (by \<open>game.board()\<close>, by \<open>popen_uci\<close>, by \<open>engine.configure\<close>, by the headers,
  by \<open>board.push\<close>, or by \<open>engine.analyse\<close> or a reply without a score) leaves
  \<open>analyze_game\<close> as it is, after the calls made so far, and a session that \<open>popen_uci\<close>
  has opened is left open. \<open>popen_uci\<close> is called once unless \<open>game.board()\<close> raises.
  An exception of \<open>engine.quit()\<close> itself leaves the function too, in place of the
  result.
\<close>

theorem quit_called_iff_loop_completes:
  assumes "outcome = analyze_game_with s game"
  shows
   "count_list (session_calls outcome) Quit = (if reaches_quit s game then 1 else 0) \<and>
    count_list (session_calls outcome) Popen_uci = (if board s = None then 1 else 0) \<and>
    (reaches_quit s game \<longrightarrow>
       last (session_calls outcome) = Quit \<and>
       count_list (session_calls outcome) Analyse = length game) \<and>
    (\<not> reaches_quit s game \<longrightarrow> (\<exists>e cs. outcome = Inl (e, cs))) \<and>
    (\<forall>e. board s = Some e \<longrightarrow> outcome = Inl (e, [])) \<and>
    (\<forall>e. board s = None \<and> popen_uci s = Some e \<longrightarrow> outcome = Inl (e, [Popen_uci])) \<and>
    (\<forall>e. board s = None \<and> popen_uci s = None \<and> configure s = Some e \<longrightarrow>
       outcome = Inl (e, [Popen_uci, Configure])) \<and>
    (\<forall>e. board s = None \<and> popen_uci s = None \<and> configure s = None \<and> headers s = Some e \<longrightarrow>
       outcome = Inl (e, [Popen_uci, Configure])) \<and>
    (\<forall>pre p post e.
       board s = None \<and> popen_uci s = None \<and> configure s = None \<and> headers s = None \<and>
       game = pre @ p # post \<and> list_all played pre \<and> push p = Some e \<longrightarrow>
       outcome = Inl (e, [Popen_uci, Configure] @ replicate (length pre) Analyse)) \<and>
    (\<forall>pre p post e.
       board s = None \<and> popen_uci s = None \<and> configure s = None \<and> headers s = None \<and>
       game = pre @ p # post \<and> list_all played pre \<and> push p = None \<and> analyse p = Inl e \<longrightarrow>
       outcome = Inl (e, [Popen_uci, Configure] @ replicate (Suc (length pre)) Analyse)) \<and>
    (\<forall>e. reaches_quit s game \<and> quit s = Some e \<longrightarrow>
       outcome =
         Inl (e, [Popen_uci, Configure] @ replicate (length game) Analyse @ [Quit]))"
proof -
  note cnt = count_list_replicate_Analyse
  have i: "calls init_locals = [Popen_uci, Configure]" by (simp add: init_locals_def)
  have b: "outcome = Inl (e, [])" if "board s = Some e" for e
    using that by (simp add: assms analyze_game_with_def)
  have po: "outcome = Inl (e, [Popen_uci])" if "board s = None" "popen_uci s = Some e" for e
    using that by (simp add: assms analyze_game_with_def)
  have co: "outcome = Inl (e, [Popen_uci, Configure])"
    if "board s = None" "popen_uci s = None" "configure s = Some e" for e
    using that by (simp add: assms analyze_game_with_def)
  have he: "outcome = Inl (e, [Popen_uci, Configure])"
    if "board s = None" "popen_uci s = None" "configure s = None" "headers s = Some e" for e
    using that by (simp add: assms analyze_game_with_def)
  have pu: "outcome = Inl (e, [Popen_uci, Configure] @ replicate (length pre) Analyse)"
    if "board s = None" "popen_uci s = None" "configure s = None" "headers s = None"
      "game = pre @ p # post" "list_all played pre" "push p = Some e" for pre p post e
    using analyze_game_with_loop_raises [OF that(1,2,3,4), of game]
      for_loop_push_raises [OF that(6,7), of init_locals post] that(5) i
    by (simp add: assms)
  have an: "outcome = Inl (e, [Popen_uci, Configure] @ replicate (Suc (length pre)) Analyse)"
    if "board s = None" "popen_uci s = None" "configure s = None" "headers s = None"
      "game = pre @ p # post" "list_all played pre" "push p = None" "analyse p = Inl e"
    for pre p post e
    using analyze_game_with_loop_raises [OF that(1,2,3,4), of game]
      for_loop_analyse_raises [OF that(6,7,8), of init_locals post] that(5) i
    by (simp add: assms)
  have qu: "outcome =
      Inl (e, [Popen_uci, Configure] @ replicate (length game) Analyse @ [Quit])"
    if "reaches_quit s game" "quit s = Some e" for e
    using analyze_game_with_reaches_quit [OF that(1)] that(2) by (auto simp: assms)
  have ok: "count_list (session_calls outcome) Quit = 1 \<and>
      count_list (session_calls outcome) Popen_uci = 1 \<and>
      last (session_calls outcome) = Quit \<and>
      count_list (session_calls outcome) Analyse = length game"
    if "reaches_quit s game"
  proof -
    from analyze_game_with_reaches_quit [OF that] obtain st
      where "for_loop init_locals game = Inr st"
        and c: "calls st = [Popen_uci, Configure] @ replicate (length game) Analyse"
        and e: "analyze_game_with s game =
             (case quit s of
                Some e \<Rightarrow> Inl (e, calls st @ [Quit])
              | None \<Rightarrow>
                  (case move_num st of
                     None \<Rightarrow> Inl (UnboundLocalError, calls st @ [Quit])
                   | Some mn \<Rightarrow>
                       Inr ((white_mistakes st, white_blunders st, black_mistakes st,
                             black_blunders st, mn), calls st @ [Quit])))"
      by blast
    have a: "session_calls outcome = calls st @ [Quit]"
      unfolding assms e by (simp add: session_calls_def split: option.splits)
    show ?thesis unfolding a c by (simp add: cnt)
  qed
  have bad: "(\<exists>e cs. outcome = Inl (e, cs)) \<and>
      count_list (session_calls outcome) Quit = 0 \<and>
      count_list (session_calls outcome) Popen_uci = (if board s = None then 1 else 0)"
    if n: "\<not> reaches_quit s game"
  proof (cases "board s")
    case (Some e)
    from b [OF Some] Some show ?thesis by (simp add: session_calls_def)
  next
    case None
    note b0 = None
    show ?thesis
    proof (cases "popen_uci s")
      case (Some e)
      from po [OF b0 Some] b0 show ?thesis by (simp add: session_calls_def)
    next
      case None
      note p0 = None
      show ?thesis
      proof (cases "configure s")
        case (Some e)
        from co [OF b0 p0 Some] b0 show ?thesis by (simp add: session_calls_def)
      next
        case None
        note c0 = None
        show ?thesis
        proof (cases "headers s")
          case (Some e)
          from he [OF b0 p0 c0 Some] b0 show ?thesis by (simp add: session_calls_def)
        next
          case None
          note h0 = None
          from n b0 p0 c0 h0 have "\<not> list_all played game"
            by (simp add: reaches_quit_def)
          from first_failure [OF this] obtain pre p post
            where g: "game = pre @ p # post" and o: "list_all played pre"
              and f: "\<not> played p"
            by blast
          from f show ?thesis
          proof (cases rule: not_played_cases)
            case (1 e)
            from pu [OF b0 p0 c0 h0 g o 1] b0 show ?thesis
              by (simp add: session_calls_def cnt)
          next
            case (2 e)
            from an [OF b0 p0 c0 h0 g o 2] b0 show ?thesis
              by (simp add: session_calls_def cnt)
          qed
        qed
      qed
    qed
  qed
  have q: "count_list (session_calls outcome) Quit = (if reaches_quit s game then 1 else 0)"
    using ok bad by (cases "reaches_quit s game") simp_all
  have o: "count_list (session_calls outcome) Popen_uci = (if board s = None then 1 else 0)"
    using ok bad by (cases "reaches_quit s game") (simp_all add: reaches_quit_def)
  have c3: "reaches_quit s game \<longrightarrow>
       last (session_calls outcome) = Quit \<and>
       count_list (session_calls outcome) Analyse = length game"
    using ok by simp
  have c4: "\<not> reaches_quit s game \<longrightarrow> (\<exists>e cs. outcome = Inl (e, cs))"
    using bad by simp
  have c5: "\<forall>e. board s = Some e \<longrightarrow> outcome = Inl (e, [])"
    using b by simp
  have c6: "\<forall>e. board s = None \<and> popen_uci s = Some e \<longrightarrow> outcome = Inl (e, [Popen_uci])"
    using po by simp
  have c7: "\<forall>e. board s = None \<and> popen_uci s = None \<and> configure s = Some e \<longrightarrow>
       outcome = Inl (e, [Popen_uci, Configure])"
    using co by simp
  have c8: "\<forall>e. board s = None \<and> popen_uci s = None \<and> configure s = None \<and>
       headers s = Some e \<longrightarrow> outcome = Inl (e, [Popen_uci, Configure])"
    using he by simp
  have c9: "\<forall>pre p post e.
       board s = None \<and> popen_uci s = None \<and> configure s = None \<and> headers s = None \<and>
       game = pre @ p # post \<and> list_all played pre \<and> push p = Some e \<longrightarrow>
       outcome = Inl (e, [Popen_uci, Configure] @ replicate (length pre) Analyse)"
  proof (intro allI impI)
    fix pre p post e
    assume "board s = None \<and> popen_uci s = None \<and> configure s = None \<and> headers s = None \<and>
       game = pre @ p # post \<and> list_all played pre \<and> push p = Some e"
    then show "outcome = Inl (e, [Popen_uci, Configure] @ replicate (length pre) Analyse)"
      using pu [of pre p post e] by simp
  qed
  have c10: "\<forall>pre p post e.
       board s = None \<and> popen_uci s = None \<and> configure s = None \<and> headers s = None \<and>
       game = pre @ p # post \<and> list_all played pre \<and> push p = None \<and> analyse p = Inl e \<longrightarrow>
       outcome = Inl (e, [Popen_uci, Configure] @ replicate (Suc (length pre)) Analyse)"
  proof (intro allI impI)
    fix pre p post e
    assume "board s = None \<and> popen_uci s = None \<and> configure s = None \<and> headers s = None \<and>
       game = pre @ p # post \<and> list_all played pre \<and> push p = None \<and> analyse p = Inl e"
    then show "outcome =
        Inl (e, [Popen_uci, Configure] @ replicate (Suc (length pre)) Analyse)"
      using an [of pre p post e] by simp
  qed
  have c11: "\<forall>e. reaches_quit s game \<and> quit s = Some e \<longrightarrow>
       outcome =
         Inl (e, [Popen_uci, Configure] @ replicate (length game) Analyse @ [Quit])"
    using qu by simp
  show ?thesis
    by (intro conjI q o c3 c4 c5 c6 c7 c8 c9 c10 c11)
qed

text \<open>
  A game of two plies that completes; the same game when \<open>engine.configure\<close> raises;
  and a game whose second reply carries no score.
\<close>

theorem quit_called_iff_loop_completes_witness:
  "reaches_quit responsive (map answered [Cp 0, Cp 0]) \<and>
   count_list (session_calls (analyze_game_with responsive (map answered [Cp 0, Cp 0])))
     Quit = 1 \<and>
   last (session_calls (analyze_game_with responsive (map answered [Cp 0, Cp 0]))) = Quit \<and>
   \<not> reaches_quit (responsive\<lparr>configure := Some EngineError\<rparr>) (map answered [Cp 0, Cp 0]) \<and>
   analyze_game_with (responsive\<lparr>configure := Some EngineError\<rparr>)
       (map answered [Cp 0, Cp 0]) = Inl (EngineError, [Popen_uci, Configure]) \<and>
   count_list (session_calls (analyze_game_with (responsive\<lparr>configure := Some EngineError\<rparr>)
       (map answered [Cp 0, Cp 0]))) Quit = 0 \<and>
   \<not> reaches_quit responsive [answered (Cp 0), \<lparr>push = None, analyse = Inl KeyError\<rparr>] \<and>
   count_list (session_calls (analyze_game_with responsive
       [answered (Cp 0), \<lparr>push = None, analyse = Inl KeyError\<rparr>])) Quit = 0"
proof -
  let ?g = "map answered [Cp 0, Cp 0]"
  let ?s = "responsive\<lparr>configure := Some EngineError\<rparr>"
  let ?h = "[answered (Cp 0), \<lparr>push = None, analyse = Inl KeyError\<rparr>]"
  have h1: "reaches_quit responsive ?g"
    by (simp add: reaches_quit_def responsive_def played_def answered_def)
  have h2: "\<not> reaches_quit ?s ?g"
    by (simp add: reaches_quit_def responsive_def)
  have h3: "board ?s = None \<and> popen_uci ?s = None \<and> configure ?s = Some EngineError"
    by (simp add: responsive_def)
  have h4: "\<not> reaches_quit responsive ?h"
    by (simp add: reaches_quit_def responsive_def played_def answered_def)
  note t1 = quit_called_iff_loop_completes [OF refl, of responsive ?g]
  note t2 = quit_called_iff_loop_completes [OF refl, of ?s ?g]
  note t3 = quit_called_iff_loop_completes [OF refl, of responsive ?h]
  from t1 [THEN conjunct1] h1
  have a1: "count_list (session_calls (analyze_game_with responsive ?g)) Quit = 1"
    by simp
  from t1 [THEN conjunct2, THEN conjunct2, THEN conjunct1] h1
  have a2: "last (session_calls (analyze_game_with responsive ?g)) = Quit"
    by blast
  from t2 [THEN conjunct1] h2
  have a3: "count_list (session_calls (analyze_game_with ?s ?g)) Quit = 0"
    by simp
  from t2 [THEN conjunct2, THEN conjunct2, THEN conjunct2, THEN conjunct2,
      THEN conjunct2, THEN conjunct2, THEN conjunct1] h3
  have a4: "analyze_game_with ?s ?g = Inl (EngineError, [Popen_uci, Configure])"
    by blast
  from t3 [THEN conjunct1] h4
  have a5: "count_list (session_calls (analyze_game_with responsive ?h)) Quit = 0"
    by simp
  from h1 a1 a2 h2 a4 a3 h4 a5 show ?thesis by (intro conjI)
qed

subsection \<open>Illegal moves\<close>




subsection \<open>The returned move number\<close>

text \<open>
  Claim C10. An analysis completes whenever the game has a ply and every library call
  returns; and whenever an analysis of a game of \<open>n\<close> plies completes, \<open>n \<ge> 1\<close>, the
  returned move number is the ceiling of \<open>n / 2\<close>, and every move number in the four
  lists lies between 1 and the returned move number.
\<close>

theorem total_moves_and_event_range:
  "(game \<noteq> [] \<and> list_all played game \<longrightarrow> (\<exists>r. analyze_game game = Inr r)) \<and>
   (\<forall>wm wb bm bb last_move cs.
      analyze_game game = Inr ((wm, wb, bm, bb, last_move), cs) \<longrightarrow>
        1 \<le> length game \<and>
        last_move = \<lceil>real (length game) / 2\<rceil> \<and>
        (\<forall>m \<in> set wm \<union> set wb \<union> set bm \<union> set bb. 1 \<le> m \<and> m \<le> last_move))"
proof (intro conjI impI allI ballI)
  assume "game \<noteq> [] \<and> list_all played game"
  with analyze_game_returns [of game] show "\<exists>r. analyze_game game = Inr r" by blast
next
  fix wm wb bm bb last_move cs
  assume a: "analyze_game game = Inr ((wm, wb, bm, bb, last_move), cs)"
  from analyze_game_Inr [OF a] obtain st where r: "for_loop init_locals game = Inr st"
    and n: "game \<noteq> []" and f: "wm = white_mistakes st" "wb = white_blunders st"
      "bm = black_mistakes st" "bb = black_blunders st"
    and t: "move_num st = Some last_move"
    by blast
  from n show "1 \<le> length game" by (cases game) simp_all
  have c: "combined_move_num init_locals = 1" by (simp add: init_locals_def)
  from for_loop_last(1) [OF r n] t c
  have l: "last_move = move_num_of (int (length game))" by simp
  then show "last_move = \<lceil>real (length game) / 2\<rceil>"
    by (simp add: move_num_of_def)
  fix m
  assume "m \<in> set wm \<union> set wb \<union> set bm \<union> set bb"
  then have "m \<in> event_numbers st" by (simp add: f event_numbers_def)
  moreover have "event_numbers init_locals = {}"
    by (simp add: init_locals_def event_numbers_def)
  moreover note for_loop_event_numbers [OF r]
  ultimately have "move_num_of 1 \<le> m \<and> m \<le> move_num_of (int (length game))"
    using c by auto
  then show "1 \<le> m" and "m \<le> last_move"
    by (simp_all add: l move_num_of_div)
qed

text \<open>
  The game with evaluations 20, 20, -310: the returned move number is 2, and so is the
  only recorded one.
\<close>

theorem total_moves_and_event_range_witness:
  "map answered [Cp 20, Cp 20, Cp (- 310)] \<noteq> [] \<and>
   list_all played (map answered [Cp 20, Cp 20, Cp (- 310)]) \<and>
   analyze_game (map answered [Cp 20, Cp 20, Cp (- 310)]) =
     Inr (([], [2], [], [], 2), [Popen_uci, Configure, Analyse, Analyse, Analyse, Quit]) \<and>
   (2::int) = \<lceil>real (length (map answered [Cp 20, Cp 20, Cp (- 310)])) / 2\<rceil> \<and>
   (1::int) \<le> 2 \<and> (2::int) \<le> 2"
proof -
  let ?game = "map answered [Cp 20, Cp 20, Cp (- 310)]"
  have h1: "?game \<noteq> [] \<and> list_all played ?game"
    by (simp add: played_def answered_def)
  have h2: "analyze_game ?game =
     Inr (([], [2], [], [], 2), [Popen_uci, Configure, Analyse, Analyse, Analyse, Quit])"
    by (simp add: analyze_game_def init_locals_def answered_def loop_body_def Let_def
        move_num_of_div mistake_def blunder_def)
  from total_moves_and_event_range [of ?game] h1 h2 show ?thesis by simp
qed

end
